theory Spec2Isabelle
  imports Complex_Main
begin

section \<open>Tutorial 1: the synthetic-choice generator\<close>

text \<open>
  The notebook \<^verbatim>\<open>tutorial1_DGP_and_bias.ipynb\<close> is a linear script. Its generator part
  (cells 4, 6 and 8) is embedded below, one definition per numpy or pandas operation the
  cells call, with the notebook's constants (the task table, \<open>N\<close>, the true parameters and
  the seed) turned into arguments; \<open>scenarioA\<close> instantiates them as the notebook does.
  Python floats are idealised as \<^typ>\<open>real\<close>, numpy's 64-bit integers as \<^typ>\<open>int\<close>.
\<close>

subsection \<open>Data model\<close>

text \<open>A row of the \<open>tasks\<close> array: \<open>(TC1, TT1, TC2, TT2)\<close>.\<close>

type_synonym task = "int \<times> int \<times> int \<times> int"

text \<open>The true utility parameters of cell 6.\<close>

record true_params =
  beta_tt :: real
  beta_tc :: real
  asc1 :: real
  asc2 :: real

text \<open>
  The pandas dataframe \<open>df\<close> of cell 8, column by column; all columns have \<open>len(df)\<close>
  entries. The \<open>CHOICE\<close> column is a float column that may hold NaN
  (\<^typ>\<open>int option\<close>, \<open>None\<close> for NaN) until \<open>astype(int)\<close> makes it an integer column.
\<close>

record 'c dataframe =
  RESP :: "int list"
  TC1 :: "int list"
  TT1 :: "int list"
  TC2 :: "int list"
  TT2 :: "int list"
  V1 :: "real list"
  V2 :: "real list"
  epsilon1 :: "real list"
  epsilon2 :: "real list"
  U1 :: "real list"
  U2 :: "real list"
  CHOICE :: "'c list"

text \<open>The exceptions the generator cells can raise.\<close>

datatype error =
    ShapeError            \<comment> \<open>\<open>ValueError\<close> of \<open>np.concatenate\<close> / \<open>pd.DataFrame\<close>\<close>
  | SeedError             \<comment> \<open>\<open>ValueError\<close> of \<open>np.random.seed\<close>\<close>
  | IntCastingNaNError    \<comment> \<open>\<open>astype(int)\<close> on a column holding NaN\<close>

subsection \<open>The global random state of numpy\<close>

text \<open>
  \<open>np.random\<close> keeps one process-wide generator. Its bit generator and the Gumbel transform
  belong to numpy, so they are a parameter here: \<open>lib s\<close> is the sequence of standard-Gumbel
  variates that the generator seeded with \<open>s\<close> hands out, \<open>lib s 0\<close> first. The state is
  the sequence in use and how many variates have been consumed.
\<close>

type_synonym gumbel_lib = "int \<Rightarrow> nat \<Rightarrow> real"

record rng_state =
  variates :: "nat \<Rightarrow> real"
  consumed :: nat

text \<open>\<open>np.random.seed(s)\<close>: accepts \<open>0 \<le> s < 2**32\<close>, replaces the global state.\<close>

definition np_random_seed :: "gumbel_lib \<Rightarrow> int \<Rightarrow> error + rng_state" where
  "np_random_seed lib s =
     (if 0 \<le> s \<and> s < 2 ^ 32 then Inr \<lparr>variates = lib s, consumed = 0\<rparr>
      else Inl SeedError)"

text \<open>\<open>np.random.gumbel(size=n)\<close>: the next \<open>n\<close> variates, in order, and the advanced state.\<close>

definition np_random_gumbel :: "nat \<Rightarrow> rng_state \<Rightarrow> real list \<times> rng_state" where
  "np_random_gumbel n st =
     (map (\<lambda>i. variates st (consumed st + i)) [0..<n],
      st\<lparr>consumed := consumed st + n\<rparr>)"

subsection \<open>Cell 4: the design, replicated over respondents\<close>

text \<open>\<open>np.tile(tasks, (N, 1))\<close>: the rows of \<open>tasks\<close>, \<open>N\<close> times over.\<close>

definition np_tile :: "'a list \<Rightarrow> nat \<Rightarrow> 'a list" where
  "np_tile rows n = concat (replicate n rows)"

text \<open>\<open>np.arange(a, b)\<close> on integers.\<close>

definition np_arange :: "int \<Rightarrow> int \<Rightarrow> int list" where
  "np_arange a b = [a..b - 1]"

text \<open>\<open>np.repeat(xs, k)\<close>: every element \<open>k\<close> times, in place.\<close>

definition np_repeat :: "'a list \<Rightarrow> nat \<Rightarrow> 'a list" where
  "np_repeat xs k = concat (map (replicate k) xs)"

text \<open>
  \<open>np.concatenate((resp_id, data), axis=1)\<close> glues the id column to the task columns and
  raises when the row counts differ. An empty \<open>tasks\<close> array has no second axis, so the
  shapes never fit the five column names: that is the \<open>ShapeError\<close> branch.
\<close>

definition design :: "task list \<Rightarrow> nat \<Rightarrow> error + (int \<times> task) list" where
  "design tasks N =
     (let data = np_tile tasks N;
          resp_id = np_repeat (np_arange 1 (int N + 1)) (length tasks)
      in if tasks = [] \<or> length resp_id \<noteq> length data then Inl ShapeError
         else Inr (zip resp_id data))"

subsection \<open>Cell 8: utilities, shocks and choices\<close>

text \<open>
  The \<open>CHOICE\<close> column starts as NaN (\<open>None\<close>) everywhere; \<open>df.loc[mask, 'CHOICE'] = v\<close>
  overwrites the rows where the mask holds.
\<close>

definition loc_assign :: "bool list \<Rightarrow> int \<Rightarrow> int option list \<Rightarrow> int option list" where
  "loc_assign msk v col = map (\<lambda>(m, c). if m then Some v else c) (zip msk col)"

text \<open>\<open>astype(int)\<close>: pandas refuses to cast a column that holds NaN.\<close>

fun astype_int :: "int option list \<Rightarrow> error + int list" where
  "astype_int [] = Inr []"
| "astype_int (None # col) = Inl IntCastingNaNError"
| "astype_int (Some v # col) =
     (case astype_int col of Inl e \<Rightarrow> Inl e | Inr vs \<Rightarrow> Inr (v # vs))"

text \<open>The \<open>CHOICE\<close> column before the cast: NaN, then the two masked assignments.\<close>

definition choice_column :: "real list \<Rightarrow> real list \<Rightarrow> int option list" where
  "choice_column u1 u2 =
     (let c0 = replicate (length u1) None;
          c1 = loc_assign (map (\<lambda>(a, b). a > b) (zip u1 u2)) 1 c0;
          c2 = loc_assign (map (\<lambda>(a, b). a > b) (zip u2 u1)) 2 c1
      in c2)"

text \<open>
  Cells 4 and 8 up to the two masked assignments, run on the global random state \<open>st\<close>
  they find: the dataframe with its float \<open>CHOICE\<close> column, or the exception raised, and
  the random state left behind.
\<close>

definition simulate ::
  "gumbel_lib \<Rightarrow> rng_state \<Rightarrow> task list \<Rightarrow> nat \<Rightarrow> true_params \<Rightarrow> int
     \<Rightarrow> (error + int option dataframe) \<times> rng_state" where
  "simulate lib st tasks N p seed =
     (case design tasks N of
        Inl e \<Rightarrow> (Inl e, st)
      | Inr df \<Rightarrow>
          let resp = map fst df;
              tc1 = map (\<lambda>(r, a, b, c, d). a) df;
              tt1 = map (\<lambda>(r, a, b, c, d). b) df;
              tc2 = map (\<lambda>(r, a, b, c, d). c) df;
              tt2 = map (\<lambda>(r, a, b, c, d). d) df;
              v1 = map (\<lambda>(c, t). asc1 p + beta_tc p * real_of_int c + beta_tt p * real_of_int t)
                     (zip tc1 tt1);
              v2 = map (\<lambda>(c, t). asc2 p + beta_tc p * real_of_int c + beta_tt p * real_of_int t)
                     (zip tc2 tt2)
          in case np_random_seed lib seed of
               Inl e \<Rightarrow> (Inl e, st)
             | Inr st0 \<Rightarrow>
                 let (eps1, st1) = np_random_gumbel (length df) st0;
                     (eps2, st2) = np_random_gumbel (length df) st1;
                     u1 = map (\<lambda>(v, e). v + e) (zip v1 eps1);
                     u2 = map (\<lambda>(v, e). v + e) (zip v2 eps2)
                 in (Inr \<lparr>RESP = resp, TC1 = tc1, TT1 = tt1, TC2 = tc2, TT2 = tt2,
                          V1 = v1, V2 = v2, epsilon1 = eps1, epsilon2 = eps2,
                          U1 = u1, U2 = u2, CHOICE = choice_column u1 u2\<rparr>, st2))"

text \<open>
  The generator: \<open>simulate\<close>, then \<open>df['CHOICE'] = df['CHOICE'].astype(int)\<close>, which
  raises when a row was left at NaN.
\<close>

definition generate ::
  "gumbel_lib \<Rightarrow> rng_state \<Rightarrow> task list \<Rightarrow> nat \<Rightarrow> true_params \<Rightarrow> int
     \<Rightarrow> (error + int dataframe) \<times> rng_state" where
  "generate lib st tasks N p seed =
     (case simulate lib st tasks N p seed of
        (Inl e, st') \<Rightarrow> (Inl e, st')
      | (Inr df, st') \<Rightarrow>
          (case astype_int (CHOICE df) of
             Inl e \<Rightarrow> (Inl e, st')
           | Inr ch \<Rightarrow>
               (Inr \<lparr>RESP = RESP df, TC1 = TC1 df, TT1 = TT1 df, TC2 = TC2 df, TT2 = TT2 df,
                     V1 = V1 df, V2 = V2 df, epsilon1 = epsilon1 df, epsilon2 = epsilon2 df,
                     U1 = U1 df, U2 = U2 df, CHOICE = ch\<rparr>, st')))"

text \<open>The notebook's own inputs: the task table of cell 4, \<open>N = 200\<close>, cell 6, seed 42.\<close>

definition tasks_A :: "task list" where
  "tasks_A = [(4, 35, 8, 25), (4, 35, 8, 30), (6, 40, 7, 20), (5, 30, 6, 25), (5, 40, 7, 20)]"

definition params_A :: true_params where
  "params_A = \<lparr>beta_tt = - 1 / 10, beta_tc = - 4 / 10, asc1 = 0, asc2 = 1\<rparr>"

definition scenarioA :: "gumbel_lib \<Rightarrow> rng_state \<Rightarrow> (error + int dataframe) \<times> rng_state" where
  "scenarioA lib st = generate lib st tasks_A 200 params_A 42"

text \<open>
  The order the design is meant to have: for each respondent \<open>r = 1..N\<close> in turn, every
  task in the order of \<open>tasks\<close>.
\<close>

definition respondent_major :: "task list \<Rightarrow> nat \<Rightarrow> (int \<times> task) list" where
  "respondent_major tasks N = concat (map (\<lambda>r. map (Pair r) tasks) [1..int N])"

text \<open>
  A draw order that consumes the stream observation by observation: row \<open>i\<close> takes variate
  \<open>2 i\<close> for \<open>epsilon1\<close> and variate \<open>2 i + 1\<close> for \<open>epsilon2\<close>. It is the order the
  prose of the design describes, stated here to compare the notebook's draws with it.
\<close>

definition draws_per_observation :: "gumbel_lib \<Rightarrow> int \<Rightarrow> nat \<Rightarrow> real list \<times> real list" where
  "draws_per_observation lib seed n =
     (map (\<lambda>i. lib seed (2 * i)) [0..<n], map (\<lambda>i. lib seed (2 * i + 1)) [0..<n])"

text \<open>A stream that hands out its own positions, which makes the draw order visible.\<close>

definition counting_lib :: gumbel_lib where
  "counting_lib s k = real k"

text \<open>A stream without noise, and a fresh random state.\<close>

definition silent_lib :: gumbel_lib where
  "silent_lib s k = 0"

definition fresh_state :: rng_state where
  "fresh_state = \<lparr>variates = (\<lambda>k. 0), consumed = 0\<rparr>"

subsection \<open>Cell 8: the file written by \<open>to_csv\<close>\<close>

text \<open>
  \<open>df[['RESP','TC1','TT1','TC2','TT2','CHOICE']]\<close>: the six integer columns, row by row.
\<close>

type_synonym observation = "int \<times> int \<times> int \<times> int \<times> int \<times> int"

definition select_columns :: "int dataframe \<Rightarrow> observation list" where
  "select_columns df =
     zip (RESP df) (zip (TC1 df) (zip (TT1 df) (zip (TC2 df) (zip (TT2 df) (CHOICE df)))))"

definition columns :: "string list" where
  "columns = [''RESP'', ''TC1'', ''TT1'', ''TC2'', ''TT2'', ''CHOICE'']"

text \<open>Python's \<open>str\<close> on a non-negative integer: its decimal digits.\<close>

definition digit_char :: "nat \<Rightarrow> char" where
  "digit_char d = char_of (48 + d)"

fun digits :: "nat \<Rightarrow> string" where
  "digits n = (if n < 10 then [digit_char n] else digits (n div 10) @ [digit_char (n mod 10)])"

declare digits.simps [simp del]

definition str_int :: "int \<Rightarrow> string" where
  "str_int i = (if i < 0 then CHR ''-'' # digits (nat (- i)) else digits (nat i))"

text \<open>\<open>sep.join(cells)\<close>.\<close>

fun join :: "'a list \<Rightarrow> 'a list list \<Rightarrow> 'a list" where
  "join sep [] = []"
| "join sep [x] = x"
| "join sep (x # y # ys) = x @ sep @ join sep (y # ys)"

definition newline :: char where
  "newline = CHR 0x0A"

definition csv_line :: "string list \<Rightarrow> string" where
  "csv_line cells = join '','' cells @ [newline]"

text \<open>
  \<open>to_csv(data_path, sep=',', index=False)\<close> on the selected integer columns: the header
  line, then one line per row, each ended by a newline. The model returns the text of the
  file.
\<close>

definition row_cells :: "observation \<Rightarrow> string list" where
  "row_cells = (\<lambda>(r, a, b, c, d, ch). map str_int [r, a, b, c, d, ch])"

definition to_csv :: "observation list \<Rightarrow> string" where
  "to_csv rows = csv_line columns @ concat (map (\<lambda>row. csv_line (row_cells row)) rows)"

text \<open>Cell 8 as a whole: the generator, then the file.\<close>

definition cell8_file ::
  "gumbel_lib \<Rightarrow> rng_state \<Rightarrow> task list \<Rightarrow> nat \<Rightarrow> true_params \<Rightarrow> int
     \<Rightarrow> (error + string) \<times> rng_state" where
  "cell8_file lib st tasks N p seed =
     (case generate lib st tasks N p seed of
        (Inl e, st') \<Rightarrow> (Inl e, st')
      | (Inr df, st') \<Rightarrow> (Inr (to_csv (select_columns df)), st'))"

subsection \<open>Reading the file back\<close>

text \<open>\<open>s.split(c)\<close>: the pieces of \<open>s\<close> between occurrences of \<open>c\<close>.\<close>

fun split_on :: "'a \<Rightarrow> 'a list \<Rightarrow> 'a list list" where
  "split_on c [] = [[]]"
| "split_on c (x # xs) =
     (if x = c then [] # split_on c xs
      else (case split_on c xs of [] \<Rightarrow> [[x]] | f # fs \<Rightarrow> (x # f) # fs))"

definition is_digit :: "char \<Rightarrow> bool" where
  "is_digit ch = (48 \<le> (of_char ch :: nat) \<and> (of_char ch :: nat) \<le> 57)"

definition digit_val :: "char \<Rightarrow> nat" where
  "digit_val ch = of_char ch - 48"

definition nat_of_str :: "string \<Rightarrow> nat option" where
  "nat_of_str ds =
     (if ds \<noteq> [] \<and> list_all is_digit ds
      then Some (foldl (\<lambda>acc ch. 10 * acc + digit_val ch) 0 ds) else None)"

definition int_of_str :: "string \<Rightarrow> int option" where
  "int_of_str s =
     (case s of
        [] \<Rightarrow> None
      | ch # ds \<Rightarrow>
          if ch = CHR ''-'' then map_option (\<lambda>n. - int n) (nat_of_str ds)
          else map_option int (nat_of_str s))"

definition parse_row :: "string \<Rightarrow> observation option" where
  "parse_row line =
     (case map int_of_str (split_on CHR '','' line) of
        [Some r, Some a, Some b, Some c, Some d, Some ch] \<Rightarrow> Some (r, a, b, c, d, ch)
      | _ \<Rightarrow> None)"

text \<open>
  Modelled from the spec: the reader of the persisted file is not part of the notebook
  (later tutorials load the file). The spec fixes the format: comma-separated, a header row
  with the six column names, one row per observation in file order. The reader accepts
  exactly that: a text whose every line ends in a newline, whose first line is the header,
  and whose other lines are six integers each.
\<close>

definition read_csv :: "string \<Rightarrow> observation list option" where
  "read_csv text =
     (case rev (split_on newline text) of
        [] \<Rightarrow> None
      | final # rls \<Rightarrow>
          if final \<noteq> [] then None
          else (case rev rls of
                  [] \<Rightarrow> None
                | header # body \<Rightarrow>
                    if split_on CHR '','' header \<noteq> columns then None
                    else those (map parse_row body)))"

section \<open>The multinomial-logit estimator\<close>

subsection \<open>Biogeme expressions\<close>

text \<open>
  Cells 13, 15 and 23 build biogeme expressions; \<open>estimate_mnl\<close> (cell 17) combines them
  into the log-likelihood formula it hands to \<open>bio.BIOGEME\<close>. The expressions are data:
  \<open>Beta(name, value, lowerbound, upperbound, status)\<close>, \<open>Variable(name)\<close>, \<open>+\<close>, \<open>*\<close>,
  \<open>log\<close> and \<open>models.logit(V, av, choice)\<close>, whose two dictionaries are kept as association
  lists in key order.
\<close>

datatype expr =
    Numeric real
  | Beta string real "real option" "real option" int
  | Variable string
  | Plus expr expr
  | Times expr expr
  | Log expr
  | Logit "(int \<times> expr) list" "(int \<times> expr) list" expr

text \<open>
  The parameters biogeme estimates: cell 15 documents the last argument of \<open>Beta\<close> as
  ``0 means estimated, 1 means fixed to the starting value''.
\<close>

fun free_betas :: "expr \<Rightarrow> string list" where
  "free_betas (Numeric x) = []"
| "free_betas (Beta name v lb ub status) = (if status = 0 then [name] else [])"
| "free_betas (Variable name) = []"
| "free_betas (Plus a b) = free_betas a @ free_betas b"
| "free_betas (Times a b) = free_betas a @ free_betas b"
| "free_betas (Log a) = free_betas a"
| "free_betas (Logit V av c) =
     concat (map (\<lambda>kv. free_betas (snd kv)) V) @ concat (map (\<lambda>kv. free_betas (snd kv)) av)
       @ free_betas c"

fun fixed_betas :: "expr \<Rightarrow> (string \<times> real) list" where
  "fixed_betas (Numeric x) = []"
| "fixed_betas (Beta name v lb ub status) = (if status = 0 then [] else [(name, v)])"
| "fixed_betas (Variable name) = []"
| "fixed_betas (Plus a b) = fixed_betas a @ fixed_betas b"
| "fixed_betas (Times a b) = fixed_betas a @ fixed_betas b"
| "fixed_betas (Log a) = fixed_betas a"
| "fixed_betas (Logit V av c) =
     concat (map (\<lambda>kv. fixed_betas (snd kv)) V) @ concat (map (\<lambda>kv. fixed_betas (snd kv)) av)
       @ fixed_betas c"

text \<open>
  Modelled from the spec: \<open>models.logit\<close> is biogeme's, not the notebook's. The spec gives
  its value: \<open>P(c) = exp(V_c) / \<Sum>_j exp(V_j)\<close>, the sum over the alternatives available in
  the observation. \<open>V\<close> holds the utilities by alternative, \<open>av\<close> the availabilities
  (non-zero for available), \<open>c\<close> the chosen alternative; no value when \<open>c\<close> has no utility.
\<close>

definition available :: "(int \<times> real) list \<Rightarrow> int \<Rightarrow> bool" where
  "available av j = (case map_of av j of None \<Rightarrow> False | Some a \<Rightarrow> a \<noteq> 0)"

definition logit :: "(int \<times> real) list \<Rightarrow> (int \<times> real) list \<Rightarrow> int \<Rightarrow> real option" where
  "logit V av c =
     (case map_of V c of
        None \<Rightarrow> None
      | Some vc \<Rightarrow>
          Some (exp vc / sum_list (map (\<lambda>(j, v). if available av j then exp v else 0) V)))"

text \<open>
  The value of an expression on one row of the database, for given values \<open>\<beta>\<close> of the
  estimated parameters. A fixed parameter keeps its starting value. There is no value
  (\<open>None\<close>) when a variable is not a column of the database, when the logarithm of a
  non-positive number is taken, or when the chosen alternative is not an integer key.
\<close>

fun those_pairs :: "(int \<times> real option) list \<Rightarrow> (int \<times> real) list option" where
  "those_pairs [] = Some []"
| "those_pairs ((k, None) # kvs) = None"
| "those_pairs ((k, Some v) # kvs) = map_option (Cons (k, v)) (those_pairs kvs)"

fun eval :: "(string \<Rightarrow> real) \<Rightarrow> (string \<rightharpoonup> real) \<Rightarrow> expr \<Rightarrow> real option" where
  "eval \<beta> row (Numeric x) = Some x"
| "eval \<beta> row (Beta name v lb ub status) = Some (if status = 0 then \<beta> name else v)"
| "eval \<beta> row (Variable name) = row name"
| "eval \<beta> row (Plus a b) =
     (case (eval \<beta> row a, eval \<beta> row b) of (Some x, Some y) \<Rightarrow> Some (x + y) | _ \<Rightarrow> None)"
| "eval \<beta> row (Times a b) =
     (case (eval \<beta> row a, eval \<beta> row b) of (Some x, Some y) \<Rightarrow> Some (x * y) | _ \<Rightarrow> None)"
| "eval \<beta> row (Log a) =
     (case eval \<beta> row a of Some x \<Rightarrow> if 0 < x then Some (ln x) else None | None \<Rightarrow> None)"
| "eval \<beta> row (Logit V av c) =
     (case (those_pairs (map (\<lambda>kv. (fst kv, eval \<beta> row (snd kv))) V),
            those_pairs (map (\<lambda>kv. (fst kv, eval \<beta> row (snd kv))) av),
            eval \<beta> row c) of
        (Some vs, Some avs, Some x) \<Rightarrow>
          if x = real_of_int \<lfloor>x\<rfloor> then logit vs avs \<lfloor>x\<rfloor> else None
      | _ \<Rightarrow> None)"

subsection \<open>Cells 13, 15, 17 and 23\<close>

text \<open>Cell 13: the variables of the database.\<close>

definition var_TT1 :: expr where "var_TT1 = Variable ''TT1''"
definition var_TC1 :: expr where "var_TC1 = Variable ''TC1''"
definition var_TT2 :: expr where "var_TT2 = Variable ''TT2''"
definition var_TC2 :: expr where "var_TC2 = Variable ''TC2''"
definition var_CHOICE :: expr where "var_CHOICE = Variable ''CHOICE''"

text \<open>Cell 15: the parameters and utility functions of the model with ASC.\<close>

definition B_TT :: expr where "B_TT = Beta ''B_TT'' 0 None None 0"
definition B_TC :: expr where "B_TC = Beta ''B_TC'' 0 None None 0"
definition ASC1 :: expr where "ASC1 = Beta ''ASC1'' 0 None None 1"
definition ASC2 :: expr where "ASC2 = Beta ''ASC2'' 0 None None 0"

definition V1_asc :: expr where
  "V1_asc = Plus (Plus ASC1 (Times B_TT var_TT1)) (Times B_TC var_TC1)"

definition V2_asc :: expr where
  "V2_asc = Plus (Plus ASC2 (Times B_TT var_TT2)) (Times B_TC var_TC2)"

text \<open>Cell 23: the utility functions without ASC.\<close>

definition V1_noasc :: expr where
  "V1_noasc = Plus (Times B_TT var_TT1) (Times B_TC var_TC1)"

definition V2_noasc :: expr where
  "V2_noasc = Plus (Times B_TT var_TT2) (Times B_TC var_TC2)"

text \<open>
  Cell 17, \<open>estimate_mnl\<close>: \<open>V = {1: V1, 2: V2}\<close>, \<open>av = {1: 1, 2: 1}\<close>,
  \<open>prob = models.logit(V, av, CHOICE)\<close> and \<open>LL = log(prob)\<close>, the formula given to
  \<open>bio.BIOGEME\<close>. The maximisation itself is biogeme's and is not modelled.
\<close>

definition estimate_mnl_prob :: "expr \<Rightarrow> expr \<Rightarrow> expr \<Rightarrow> expr" where
  "estimate_mnl_prob V1e V2e choice =
     (let V = [(1, V1e), (2, V2e)];
          av = [(1, Numeric 1), (2, Numeric 1)]
      in Logit V av choice)"

definition estimate_mnl_LL :: "expr \<Rightarrow> expr \<Rightarrow> expr \<Rightarrow> expr" where
  "estimate_mnl_LL V1e V2e choice = Log (estimate_mnl_prob V1e V2e choice)"

text \<open>The same model with \<open>ASC1\<close> left free, to see what the normalisation is for.\<close>

definition ASC1_free :: expr where "ASC1_free = Beta ''ASC1'' 0 None None 0"

definition V1_asc_free :: expr where
  "V1_asc_free = Plus (Plus ASC1_free (Times B_TT var_TT1)) (Times B_TC var_TC1)"

section \<open>Properties of the generator\<close>

subsection \<open>The design and the random state\<close>

lemma zip_tile_repeat:
  "zip (np_repeat rs (length ts)) (np_tile ts (length rs)) = concat (map (\<lambda>r. map (Pair r) ts) rs)"
  by (induction rs) (simp_all add: np_repeat_def np_tile_def zip_replicate1)

lemma length_np_repeat: "length (np_repeat rs k) = length rs * k"
  by (induction rs) (simp_all add: np_repeat_def)

lemma length_np_tile: "length (np_tile ts n) = n * length ts"
  by (induction n) (simp_all add: np_tile_def)

lemma np_arange_resp: "np_arange 1 (int N + 1) = [1..int N]"
  by (simp add: np_arange_def)

lemma design_rows:
  "design tasks N = (if tasks = [] then Inl ShapeError else Inr (respondent_major tasks N))"
  using zip_tile_repeat [of "[1..int N]" tasks]
  by (simp add: design_def Let_def np_arange_resp length_np_repeat length_np_tile respondent_major_def)

lemma length_respondent_major: "length (respondent_major tasks N) = N * length tasks"
proof -
  have "length (concat (map (\<lambda>r. map (Pair r) tasks) rs)) = length rs * length tasks" for rs :: "int list"
    by (induction rs) simp_all
  then show ?thesis by (simp add: respondent_major_def)
qed

lemma astype_int_Inr: "astype_int col = Inr ch \<longleftrightarrow> col = map Some ch"
proof (induction col arbitrary: ch)
  case Nil
  show ?case by (cases ch) simp_all
next
  case (Cons a col)
  show ?case
  proof (cases a)
    case None
    then show ?thesis by (cases ch) simp_all
  next
    case (Some v)
    show ?thesis
    proof (cases "astype_int col")
      case (Inl e)
      with Cons [of "tl ch"] Some show ?thesis by (cases ch) auto
    next
      case (Inr vs)
      with Cons [of vs] Cons [of "tl ch"] Some show ?thesis by (cases ch) auto
    qed
  qed
qed

lemma astype_int_Inl: "astype_int col = Inl e \<longleftrightarrow> e = IntCastingNaNError \<and> None \<in> set col"
proof (induction col)
  case Nil
  show ?case by simp
next
  case (Cons a col)
  show ?case
  proof (cases a)
    case None
    then show ?thesis by auto
  next
    case (Some v)
    with Cons show ?thesis by (cases "astype_int col") simp_all
  qed
qed

lemma length_choice_column: "length (choice_column u1 u2) = min (length u1) (length u2)"
  by (simp add: choice_column_def loc_assign_def)

lemma choice_column_nth:
  assumes "i < length u1" "i < length u2"
  shows "choice_column u1 u2 ! i =
    (if u2 ! i > u1 ! i then Some 2 else if u1 ! i > u2 ! i then Some 1 else None)"
  using assms by (simp add: choice_column_def loc_assign_def)

definition utility :: "real \<Rightarrow> true_params \<Rightarrow> int \<Rightarrow> int \<Rightarrow> real" where
  "utility asc p c t = asc + beta_tc p * real_of_int c + beta_tt p * real_of_int t"

lemma gumbel_after_seed:
  "np_random_gumbel n \<lparr>variates = s, consumed = k\<rparr> =
     (map (\<lambda>i. s (k + i)) [0..<n], \<lparr>variates = s, consumed = k + n\<rparr>)"
  by (simp add: np_random_gumbel_def)


lemma utility_columns:
  fixes rows :: "(int \<times> task) list"
  shows "map (\<lambda>(c, t). k + bc * real_of_int c + bt * real_of_int t)
       (zip (map (\<lambda>(r, a, b, c, d). a) rows) (map (\<lambda>(r, a, b, c, d). b) rows)) =
     map (\<lambda>(r, a, b, c, d). k + bc * real_of_int a + bt * real_of_int b) rows"
  and "map (\<lambda>(c, t). k + bc * real_of_int c + bt * real_of_int t)
       (zip (map (\<lambda>(r, a, b, c, d). c) rows) (map (\<lambda>(r, a, b, c, d). d) rows)) =
     map (\<lambda>(r, a, b, c, d). k + bc * real_of_int c + bt * real_of_int d) rows"
  by (induction rows) auto

lemma simulate_ok:
  assumes "tasks \<noteq> []" "0 \<le> seed" "seed < 2 ^ 32"
  shows "simulate lib st tasks N p seed =
    (let rows = respondent_major tasks N; n = N * length tasks;
         v1 = map (\<lambda>(r, a, b, c, d). asc1 p + beta_tc p * real_of_int a + beta_tt p * real_of_int b) rows;
         v2 = map (\<lambda>(r, a, b, c, d). asc2 p + beta_tc p * real_of_int c + beta_tt p * real_of_int d) rows;
         eps1 = map (lib seed) [0..<n];
         eps2 = map (\<lambda>i. lib seed (n + i)) [0..<n];
         u1 = map (\<lambda>(v, e). v + e) (zip v1 eps1);
         u2 = map (\<lambda>(v, e). v + e) (zip v2 eps2)
     in (Inr \<lparr>RESP = map fst rows,
              TC1 = map (\<lambda>(r, a, b, c, d). a) rows,
              TT1 = map (\<lambda>(r, a, b, c, d). b) rows,
              TC2 = map (\<lambda>(r, a, b, c, d). c) rows,
              TT2 = map (\<lambda>(r, a, b, c, d). d) rows,
              V1 = v1, V2 = v2, epsilon1 = eps1, epsilon2 = eps2, U1 = u1, U2 = u2,
              CHOICE = choice_column u1 u2\<rparr>,
         \<lparr>variates = lib seed, consumed = 2 * n\<rparr>))"
proof -
  have d: "design tasks N = Inr (respondent_major tasks N)"
    using assms(1) by (simp add: design_rows)
  have s: "np_random_seed lib seed = Inr \<lparr>variates = lib seed, consumed = 0\<rparr>"
    using assms(2,3) by (simp add: np_random_seed_def)
  show ?thesis
    unfolding simulate_def d s Let_def sum.case gumbel_after_seed prod.case utility_columns
      length_respondent_major
    by simp
qed


lemma simulate_no_tasks: "simulate lib st [] N p seed = (Inl ShapeError, st)"
  by (simp add: simulate_def design_rows)

lemma simulate_bad_seed:
  assumes "tasks \<noteq> []" "\<not> (0 \<le> seed \<and> seed < 2 ^ 32)"
  shows "simulate lib st tasks N p seed = (Inl SeedError, st)"
proof -
  have d: "design tasks N = Inr (respondent_major tasks N)"
    using assms(1) by (simp add: design_rows)
  have s: "np_random_seed lib seed = Inl SeedError"
    using assms(2) by (simp add: np_random_seed_def)
  show ?thesis
    unfolding simulate_def d s Let_def sum.case by simp
qed

lemma simulate_Inr_D:
  assumes "fst (simulate lib st tasks N p seed) = Inr df"
  shows "tasks \<noteq> []" and "0 \<le> seed" and "seed < 2 ^ 32"
proof -
  show t: "tasks \<noteq> []"
    using assms by (auto simp: simulate_no_tasks)
  have "0 \<le> seed \<and> seed < 2 ^ 32"
  proof (rule ccontr)
    assume "\<not> (0 \<le> seed \<and> seed < 2 ^ 32)"
    then have "simulate lib st tasks N p seed = (Inl SeedError, st)"
      using t by (rule simulate_bad_seed [rotated])
    with assms show False by simp
  qed
  then show "0 \<le> seed" and "seed < 2 ^ 32" by simp_all
qed

lemma fst_simulate_state: "fst (simulate lib st tasks N p seed) = fst (simulate lib st' tasks N p seed)"
proof (cases "tasks \<noteq> [] \<and> 0 \<le> seed \<and> seed < 2 ^ 32")
  case True
  then show ?thesis by (simp add: simulate_ok Let_def)
next
  case False
  then show ?thesis
    by (cases "tasks = []") (simp_all add: simulate_no_tasks simulate_bad_seed)
qed

lemma generate_via_simulate:
  "fst (generate lib st tasks N p seed) =
     (case fst (simulate lib st tasks N p seed) of
        Inl e \<Rightarrow> Inl e
      | Inr df \<Rightarrow>
          (case astype_int (CHOICE df) of
             Inl e \<Rightarrow> Inl e
           | Inr ch \<Rightarrow>
               Inr \<lparr>RESP = RESP df, TC1 = TC1 df, TT1 = TT1 df, TC2 = TC2 df, TT2 = TT2 df,
                    V1 = V1 df, V2 = V2 df, epsilon1 = epsilon1 df, epsilon2 = epsilon2 df,
                    U1 = U1 df, U2 = U2 df, CHOICE = ch\<rparr>))"
  by (simp add: generate_def split: prod.splits sum.splits)

lemma fst_generate_state: "fst (generate lib st tasks N p seed) = fst (generate lib st' tasks N p seed)"
  unfolding generate_via_simulate using fst_simulate_state [of lib st tasks N p seed st'] by simp


lemma simulate_columns:
  assumes "fst (simulate lib st tasks N p seed) = Inr df"
  shows "RESP df = map fst (respondent_major tasks N)"
    and "TC1 df = map (\<lambda>(r, a, b, c, d). a) (respondent_major tasks N)"
    and "TT1 df = map (\<lambda>(r, a, b, c, d). b) (respondent_major tasks N)"
    and "TC2 df = map (\<lambda>(r, a, b, c, d). c) (respondent_major tasks N)"
    and "TT2 df = map (\<lambda>(r, a, b, c, d). d) (respondent_major tasks N)"
    and "V1 df = map (\<lambda>(r, a, b, c, d). asc1 p + beta_tc p * real_of_int a + beta_tt p * real_of_int b)
           (respondent_major tasks N)"
    and "V2 df = map (\<lambda>(r, a, b, c, d). asc2 p + beta_tc p * real_of_int c + beta_tt p * real_of_int d)
           (respondent_major tasks N)"
    and "epsilon1 df = map (lib seed) [0..<N * length tasks]"
    and "epsilon2 df = map (\<lambda>i. lib seed (N * length tasks + i)) [0..<N * length tasks]"
    and "U1 df = map (\<lambda>(v, e). v + e) (zip (V1 df) (epsilon1 df))"
    and "U2 df = map (\<lambda>(v, e). v + e) (zip (V2 df) (epsilon2 df))"
    and "CHOICE df = choice_column (U1 df) (U2 df)"
proof -
  note ok = simulate_ok [OF simulate_Inr_D [OF assms], of lib st N p]
  have df: "Inr df = fst (simulate lib st tasks N p seed)"
    using assms by simp
  show "RESP df = map fst (respondent_major tasks N)"
    and "TC1 df = map (\<lambda>(r, a, b, c, d). a) (respondent_major tasks N)"
    and "TT1 df = map (\<lambda>(r, a, b, c, d). b) (respondent_major tasks N)"
    and "TC2 df = map (\<lambda>(r, a, b, c, d). c) (respondent_major tasks N)"
    and "TT2 df = map (\<lambda>(r, a, b, c, d). d) (respondent_major tasks N)"
    and "V1 df = map (\<lambda>(r, a, b, c, d). asc1 p + beta_tc p * real_of_int a + beta_tt p * real_of_int b)
           (respondent_major tasks N)"
    and "V2 df = map (\<lambda>(r, a, b, c, d). asc2 p + beta_tc p * real_of_int c + beta_tt p * real_of_int d)
           (respondent_major tasks N)"
    and "epsilon1 df = map (lib seed) [0..<N * length tasks]"
    and "epsilon2 df = map (\<lambda>i. lib seed (N * length tasks + i)) [0..<N * length tasks]"
    and "U1 df = map (\<lambda>(v, e). v + e) (zip (V1 df) (epsilon1 df))"
    and "U2 df = map (\<lambda>(v, e). v + e) (zip (V2 df) (epsilon2 df))"
    and "CHOICE df = choice_column (U1 df) (U2 df)"
    using df unfolding ok Let_def fst_conv by auto
qed

lemma simulate_lengths:
  assumes "fst (simulate lib st tasks N p seed) = Inr df"
  shows "length (RESP df) = N * length tasks" and "length (TC1 df) = N * length tasks"
    and "length (TT1 df) = N * length tasks" and "length (TC2 df) = N * length tasks"
    and "length (TT2 df) = N * length tasks" and "length (V1 df) = N * length tasks"
    and "length (V2 df) = N * length tasks" and "length (epsilon1 df) = N * length tasks"
    and "length (epsilon2 df) = N * length tasks" and "length (U1 df) = N * length tasks"
    and "length (U2 df) = N * length tasks" and "length (CHOICE df) = N * length tasks"
  by (simp_all add: simulate_columns [OF assms] length_respondent_major length_choice_column)

lemma generate_Inr_D:
  assumes "fst (generate lib st tasks N p seed) = Inr df"
  obtains df0 where "fst (simulate lib st tasks N p seed) = Inr df0"
    and "RESP df = RESP df0" and "TC1 df = TC1 df0" and "TT1 df = TT1 df0"
    and "TC2 df = TC2 df0" and "TT2 df = TT2 df0" and "V1 df = V1 df0" and "V2 df = V2 df0"
    and "epsilon1 df = epsilon1 df0" and "epsilon2 df = epsilon2 df0"
    and "U1 df = U1 df0" and "U2 df = U2 df0" and "CHOICE df0 = map Some (CHOICE df)"
proof (cases "fst (simulate lib st tasks N p seed)")
  case (Inl e)
  with assms show ?thesis by (simp add: generate_via_simulate)
next
  case (Inr df0)
  show ?thesis
  proof (cases "astype_int (CHOICE df0)")
    case (Inl e)
    with Inr assms show ?thesis by (simp add: generate_via_simulate)
  next
    case ch: (Inr ch)
    with Inr assms have "df = \<lparr>RESP = RESP df0, TC1 = TC1 df0, TT1 = TT1 df0, TC2 = TC2 df0,
        TT2 = TT2 df0, V1 = V1 df0, V2 = V2 df0, epsilon1 = epsilon1 df0,
        epsilon2 = epsilon2 df0, U1 = U1 df0, U2 = U2 df0, CHOICE = ch\<rparr>"
      by (simp add: generate_via_simulate)
    moreover have "CHOICE df0 = map Some ch"
      using ch by (simp add: astype_int_Inr)
    ultimately show ?thesis
      using Inr by (intro that [of df0]) simp_all
  qed
qed


lemma nth_concat_blocks:
  assumes "\<And>r. length (f r) = T" "i < length rs * T"
  shows "concat (map f rs) ! i = f (rs ! (i div T)) ! (i mod T)"
  using assms(2)
proof (induction rs arbitrary: i)
  case Nil
  then show ?case by simp
next
  case (Cons r rs)
  show ?case
  proof (cases "i < T")
    case True
    then show ?thesis by (simp add: nth_append assms(1))
  next
    case False
    then have ge: "T \<le> i" by simp
    have pos: "0 < T" using Cons.prems by (cases T) simp_all
    have "i - T < length rs * T" using Cons.prems ge by simp
    then have ih: "concat (map f rs) ! (i - T) = f (rs ! ((i - T) div T)) ! ((i - T) mod T)"
      by (rule Cons.IH)
    have d: "i div T = Suc ((i - T) div T)" using pos ge by (rule le_div_geq)
    have m: "i mod T = (i - T) mod T" using ge by (simp add: le_mod_geq)
    show ?thesis using False ih by (simp add: nth_append assms(1) d m)
  qed
qed

lemma respondent_major_nth:
  assumes "i < N * length tasks"
  shows "respondent_major tasks N ! i = (1 + int (i div length tasks), tasks ! (i mod length tasks))"
proof -
  have pos: "0 < length tasks" using assms by (cases tasks) simp_all
  have k: "i div length tasks < N"
    using assms pos by (simp add: less_mult_imp_div_less)
  have "respondent_major tasks N ! i =
      map (Pair ([1..int N] ! (i div length tasks))) tasks ! (i mod length tasks)"
    unfolding respondent_major_def
    by (rule nth_concat_blocks) (simp_all add: assms)
  also have "[1..int N] ! (i div length tasks) = 1 + int (i div length tasks)"
    using k by (simp add: nth_upto)
  finally show ?thesis using pos by simp
qed

lemma zip_projections:
  fixes rows :: "(int \<times> task) list"
  shows "zip (map fst rows) (zip (map (\<lambda>(r, a, b, c, d). a) rows)
     (zip (map (\<lambda>(r, a, b, c, d). b) rows)
       (zip (map (\<lambda>(r, a, b, c, d). c) rows) (map (\<lambda>(r, a, b, c, d). d) rows)))) = rows"
  by (induction rows) auto

lemma Inr_exists: "(case x of Inl e \<Rightarrow> False | Inr y \<Rightarrow> True) \<Longrightarrow> \<exists>y. x = Inr y"
  by (cases x) simp_all

text \<open>
  Claim C8. The generator's output has one row per (respondent, task) pair, ordered by
  respondent and then by task: the five design columns, read row by row, are the tasks in
  their input order, repeated for each respondent \<open>r = 1..N\<close>; there are \<open>N * len(tasks)\<close>
  rows, and row \<open>i\<close> (from 0) belongs to respondent \<open>1 + i div len(tasks)\<close> and carries
  task \<open>i mod len(tasks)\<close>.
\<close>

theorem generator_row_order:
  assumes "fst (generate lib st tasks N p seed) = Inr df"
  shows "zip (RESP df) (zip (TC1 df) (zip (TT1 df) (zip (TC2 df) (TT2 df)))) =
           respondent_major tasks N
       \<and> length (select_columns df) = N * length tasks
       \<and> (\<forall>i < N * length tasks.
            RESP df ! i = 1 + int (i div length tasks)
          \<and> (TC1 df ! i, TT1 df ! i, TC2 df ! i, TT2 df ! i) = tasks ! (i mod length tasks))"
proof -
  from assms obtain df0 where sim: "fst (simulate lib st tasks N p seed) = Inr df0"
    and cols: "RESP df = RESP df0" "TC1 df = TC1 df0" "TT1 df = TT1 df0"
      "TC2 df = TC2 df0" "TT2 df = TT2 df0"
    and ch: "CHOICE df0 = map Some (CHOICE df)"
    by (rule generate_Inr_D)
  note c0 = simulate_columns [OF sim] and l0 = simulate_lengths [OF sim]
  have order: "zip (RESP df) (zip (TC1 df) (zip (TT1 df) (zip (TC2 df) (TT2 df)))) =
      respondent_major tasks N"
    unfolding cols c0(1-5) by (rule zip_projections)
  have "length (CHOICE df) = length (CHOICE df0)"
    using ch by simp
  then have len: "length (select_columns df) = N * length tasks"
    by (simp add: select_columns_def cols l0)
  have rows: "RESP df ! i = 1 + int (i div length tasks)
      \<and> (TC1 df ! i, TT1 df ! i, TC2 df ! i, TT2 df ! i) = tasks ! (i mod length tasks)"
    if "i < N * length tasks" for i
  proof -
    have "zip (RESP df) (zip (TC1 df) (zip (TT1 df) (zip (TC2 df) (TT2 df)))) ! i =
        (1 + int (i div length tasks), tasks ! (i mod length tasks))"
      unfolding order using that by (rule respondent_major_nth)
    then show ?thesis
      using that by (simp add: cols l0)
  qed
  show ?thesis using order len rows by blast
qed

theorem generator_row_order_witness:
  "\<exists>df. fst (generate silent_lib fresh_state [(4, 35, 8, 25), (4, 35, 8, 30)] 2 params_A 42) = Inr df
     \<and> zip (RESP df) (zip (TC1 df) (zip (TT1 df) (zip (TC2 df) (TT2 df)))) =
         [(1, 4, 35, 8, 25), (1, 4, 35, 8, 30), (2, 4, 35, 8, 25), (2, 4, 35, 8, 30)]
     \<and> length (select_columns df) = 4
     \<and> RESP df ! 3 = 2"
proof -
  have "case fst (generate silent_lib fresh_state [(4, 35, 8, 25), (4, 35, 8, 30)] 2 params_A 42)
      of Inl e \<Rightarrow> False | Inr y \<Rightarrow> True"
    by code_simp
  then obtain df where
    df: "fst (generate silent_lib fresh_state [(4, 35, 8, 25), (4, 35, 8, 30)] 2 params_A 42) = Inr df"
    using Inr_exists by blast
  have rm: "respondent_major [(4, 35, 8, 25), (4, 35, 8, 30)] 2 =
      [(1, 4, 35, 8, 25), (1, 4, 35, 8, 30), (2, 4, 35, 8, 25), (2, 4, 35, 8, 30)]"
    by code_simp
  have l: "length [(4, 35, 8, 25), (4, 35, 8, 30) :: task] = 2"
    by simp
  note t = generator_row_order [OF df, unfolded rm l]
  from t have "\<forall>i<2 * 2. RESP df ! i = 1 + int (i div 2)"
    by blast
  then have "RESP df ! 3 = 1 + int (3 div 2)"
    by simp
  then have "RESP df ! 3 = 2"
    by simp
  with t df show ?thesis
    by (intro exI [of _ df]) simp
qed

subsection \<open>The order of the random draws\<close>

text \<open>
  Claim C1, as amended. The generator consumes the seeded stream column by column: the
  \<open>epsilon1\<close> shocks of all \<open>n = N * len(tasks)\<close> rows are the first \<open>n\<close> variates, in row
  order, and the \<open>epsilon2\<close> shocks are the next \<open>n\<close>; row \<open>i\<close> (from 0) gets variate \<open>i\<close>
  as \<open>epsilon1\<close> and variate \<open>n + i\<close> as \<open>epsilon2\<close>.
\<close>

theorem generator_draw_order:
  assumes "fst (generate lib st tasks N p seed) = Inr df"
  shows "epsilon1 df = map (lib seed) [0..<N * length tasks]
       \<and> epsilon2 df = map (\<lambda>i. lib seed (N * length tasks + i)) [0..<N * length tasks]
       \<and> (\<forall>i < N * length tasks.
            epsilon1 df ! i = lib seed i \<and> epsilon2 df ! i = lib seed (N * length tasks + i))"
proof -
  from assms obtain df0 where sim: "fst (simulate lib st tasks N p seed) = Inr df0"
    and cols: "epsilon1 df = epsilon1 df0" "epsilon2 df = epsilon2 df0"
    by (rule generate_Inr_D)
  note c0 = simulate_columns [OF sim]
  show ?thesis
    unfolding cols c0(8,9) by simp
qed

theorem generator_draw_order_witness:
  "\<exists>df. fst (generate counting_lib fresh_state [(4, 35, 8, 25), (4, 35, 8, 30)] 1 params_A 42) = Inr df
     \<and> epsilon1 df = [0, 1] \<and> epsilon2 df = [2, 3]"
proof -
  have "case fst (generate counting_lib fresh_state [(4, 35, 8, 25), (4, 35, 8, 30)] 1 params_A 42)
      of Inl e \<Rightarrow> False | Inr y \<Rightarrow> True"
    by code_simp
  then obtain df where
    df: "fst (generate counting_lib fresh_state [(4, 35, 8, 25), (4, 35, 8, 30)] 1 params_A 42) = Inr df"
    using Inr_exists by blast
  have l: "1 * length [(4, 35, 8, 25), (4, 35, 8, 30) :: task] = 2"
    by simp
  have u: "[0..<2] = [0, Suc 0]"
    by (simp add: upt_rec)
  note t = generator_draw_order [OF df, unfolded l u]
  from t have "epsilon1 df = [0, 1]" and "epsilon2 df = [2, 3]"
    by (simp_all add: counting_lib_def)
  with df show ?thesis
    by (intro exI [of _ df]) simp
qed

text \<open>
  The claim as written has row \<open>i\<close> take variates \<open>2 i\<close> and \<open>2 i + 1\<close>. On the first two
  tasks of the notebook, one respondent and the stream that counts its positions, the
  generator's shocks are \<open>[0, 1]\<close> and \<open>[2, 3]\<close>, not \<open>[0, 2]\<close> and \<open>[1, 3]\<close>.
\<close>

theorem draws_per_observation_counterexample:
  "map_sum id epsilon1
      (fst (generate counting_lib fresh_state [(4, 35, 8, 25), (4, 35, 8, 30)] 1 params_A 42)) =
     Inr [0, 1]
   \<and> map_sum id epsilon2
      (fst (generate counting_lib fresh_state [(4, 35, 8, 25), (4, 35, 8, 30)] 1 params_A 42)) =
     Inr [2, 3]
   \<and> draws_per_observation counting_lib 42 2 = ([0, 2], [1, 3])
   \<and> map_sum id epsilon1
      (fst (generate counting_lib fresh_state [(4, 35, 8, 25), (4, 35, 8, 30)] 1 params_A 42)) \<noteq>
     Inr (fst (draws_per_observation counting_lib 42 2))
   \<and> map_sum id epsilon2
      (fst (generate counting_lib fresh_state [(4, 35, 8, 25), (4, 35, 8, 30)] 1 params_A 42)) \<noteq>
     Inr (snd (draws_per_observation counting_lib 42 2))"
  by code_simp

lemma fst_cell8_file:
  "fst (cell8_file lib st tasks N p seed) =
     map_sum id (\<lambda>df. to_csv (select_columns df)) (fst (generate lib st tasks N p seed))"
  by (simp add: cell8_file_def split: prod.splits sum.splits)

subsection \<open>Determinism\<close>

text \<open>
  Claim C3. The generator reseeds the global random state, so its output depends on its
  inputs only: run on any two random states \<open>st\<close> and \<open>st'\<close> with the same tasks, number
  of respondents, parameters and seed, it gives the same dataframe (or the same exception)
  and the same file text; in particular a second run, started in the state the first run
  left, writes the same file.
\<close>

theorem generator_deterministic:
  "fst (generate lib st tasks N p seed) = fst (generate lib st' tasks N p seed)
   \<and> fst (cell8_file lib st tasks N p seed) = fst (cell8_file lib st' tasks N p seed)
   \<and> fst (cell8_file lib (snd (cell8_file lib st tasks N p seed)) tasks N p seed) =
       fst (cell8_file lib st tasks N p seed)"
proof -
  have g: "fst (generate lib s tasks N p seed) = fst (generate lib st tasks N p seed)" for s
    by (rule fst_generate_state)
  show ?thesis
    unfolding fst_cell8_file g [of st'] g [of "snd (cell8_file lib st tasks N p seed)"]
    by simp
qed

lemma generate_choice_nth:
  assumes "fst (generate lib st tasks N p seed) = Inr df" "i < length (CHOICE df)"
  shows "Some (CHOICE df ! i) =
     (if U2 df ! i > U1 df ! i then Some 2 else if U1 df ! i > U2 df ! i then Some 1 else None)"
proof -
  from assms(1) obtain df0 where sim: "fst (simulate lib st tasks N p seed) = Inr df0"
    and u: "U1 df = U1 df0" "U2 df = U2 df0"
    and ch: "CHOICE df0 = map Some (CHOICE df)"
    by (rule generate_Inr_D)
  note c0 = simulate_columns [OF sim] and l0 = simulate_lengths [OF sim]
  have n: "length (CHOICE df) = N * length tasks"
    using ch l0(12) by (metis length_map)
  have "Some (CHOICE df ! i) = CHOICE df0 ! i"
    using assms(2) by (simp add: ch)
  also have "\<dots> = choice_column (U1 df0) (U2 df0) ! i"
    by (simp add: c0(12))
  also have "\<dots> = (if U2 df0 ! i > U1 df0 ! i then Some 2
      else if U1 df0 ! i > U2 df0 ! i then Some 1 else None)"
    using assms(2) n by (intro choice_column_nth) (simp_all add: l0)
  finally show ?thesis
    by (simp add: u)
qed

subsection \<open>Choices\<close>

text \<open>
  Claim C4. In every row of the generator's output whose total utilities differ, the choice
  is 1 exactly when \<open>U1 > U2\<close> and 2 exactly when \<open>U2 > U1\<close>, and exactly one of the two
  holds.
\<close>

theorem choice_follows_utilities:
  assumes "fst (generate lib st tasks N p seed) = Inr df"
    and "i < length (CHOICE df)"
    and "U1 df ! i \<noteq> U2 df ! i"
  shows "(CHOICE df ! i = 1 \<longleftrightarrow> U1 df ! i > U2 df ! i)
       \<and> (CHOICE df ! i = 2 \<longleftrightarrow> U2 df ! i > U1 df ! i)
       \<and> (CHOICE df ! i = 1 \<or> CHOICE df ! i = 2)
       \<and> \<not> (CHOICE df ! i = 1 \<and> CHOICE df ! i = 2)"
  using generate_choice_nth [OF assms(1,2)] assms(3)
  by (auto split: if_splits)

theorem choice_follows_utilities_witness:
  "\<exists>df. fst (generate silent_lib fresh_state [(4, 35, 8, 25), (4, 35, 8, 30)] 1 params_A 42) = Inr df
     \<and> U1 df ! 0 < U2 df ! 0 \<and> CHOICE df ! 0 = 2
     \<and> U1 df ! 1 > U2 df ! 1 \<and> CHOICE df ! 1 = 1"
proof -
  have ok: "map_sum id (\<lambda>df. (length (CHOICE df), U1 df, U2 df))
      (fst (generate silent_lib fresh_state [(4, 35, 8, 25), (4, 35, 8, 30)] 1 params_A 42)) =
      Inr (2, [- 51 / 10, - 51 / 10], [- 47 / 10, - 52 / 10])"
    by code_simp
  then obtain df where
    df: "fst (generate silent_lib fresh_state [(4, 35, 8, 25), (4, 35, 8, 30)] 1 params_A 42) = Inr df"
    by (cases "fst (generate silent_lib fresh_state [(4, 35, 8, 25), (4, 35, 8, 30)] 1 params_A 42)")
      simp_all
  with ok have l: "length (CHOICE df) = 2" and u1: "U1 df = [- 51 / 10, - 51 / 10]"
    and u2: "U2 df = [- 47 / 10, - 52 / 10]"
    by simp_all
  have i0: "0 < length (CHOICE df)" and i1: "1 < length (CHOICE df)"
    using l by simp_all
  have n0: "U1 df ! 0 \<noteq> U2 df ! 0" and n1: "U1 df ! 1 \<noteq> U2 df ! 1"
    by (simp_all add: u1 u2)
  from choice_follows_utilities [OF df i0 n0] choice_follows_utilities [OF df i1 n1]
  have "CHOICE df ! 0 = 2" and "CHOICE df ! 1 = 1"
    by (simp_all add: u1 u2)
  with df show ?thesis
    by (intro exI [of _ df]) (simp add: u1 u2)
qed

text \<open>
  Claim C5. A row with tied total utilities, \<open>U1 = U2\<close>, is matched by neither masked
  assignment: its \<open>CHOICE\<close> stays NaN, neither 1 nor 2, and the cast to integer then raises,
  so the generator hands out no dataframe in which the tie was resolved.
\<close>

theorem tie_leaves_choice_undefined:
  assumes "fst (simulate lib st tasks N p seed) = Inr df0"
    and "i < length (CHOICE df0)"
    and "U1 df0 ! i = U2 df0 ! i"
  shows "CHOICE df0 ! i = None
       \<and> fst (generate lib st tasks N p seed) = Inl IntCastingNaNError"
proof -
  note c0 = simulate_columns [OF assms(1)] and l0 = simulate_lengths [OF assms(1)]
  have "CHOICE df0 ! i = choice_column (U1 df0) (U2 df0) ! i"
    by (simp add: c0(12))
  also have "\<dots> = (if U2 df0 ! i > U1 df0 ! i then Some 2
      else if U1 df0 ! i > U2 df0 ! i then Some 1 else None)"
    using assms(2) by (intro choice_column_nth) (simp_all add: l0)
  finally have nan: "CHOICE df0 ! i = None"
    using assms(3) by simp
  then have "None \<in> set (CHOICE df0)"
    using assms(2) by (metis nth_mem)
  then have "astype_int (CHOICE df0) = Inl IntCastingNaNError"
    by (simp add: astype_int_Inl)
  then have "fst (generate lib st tasks N p seed) = Inl IntCastingNaNError"
    using assms(1) by (simp add: generate_via_simulate)
  with nan show ?thesis by simp
qed

theorem tie_leaves_choice_undefined_witness:
  "\<exists>df0. fst (simulate silent_lib fresh_state [(0, 0, 0, 10)] 1 params_A 42) = Inr df0
     \<and> U1 df0 ! 0 = U2 df0 ! 0
     \<and> CHOICE df0 ! 0 = None
     \<and> fst (generate silent_lib fresh_state [(0, 0, 0, 10)] 1 params_A 42) = Inl IntCastingNaNError"
proof -
  have ok: "map_sum id (\<lambda>df. (length (CHOICE df), U1 df, U2 df))
      (fst (simulate silent_lib fresh_state [(0, 0, 0, 10)] 1 params_A 42)) = Inr (1, [0], [0])"
    by code_simp
  then obtain df0 where
    df0: "fst (simulate silent_lib fresh_state [(0, 0, 0, 10)] 1 params_A 42) = Inr df0"
    by (cases "fst (simulate silent_lib fresh_state [(0, 0, 0, 10)] 1 params_A 42)") simp_all
  with ok have l: "length (CHOICE df0) = 1" and u1: "U1 df0 = [0]" and u2: "U2 df0 = [0]"
    by simp_all
  have i0: "0 < length (CHOICE df0)"
    using l by simp
  have tie: "U1 df0 ! 0 = U2 df0 ! 0"
    by (simp add: u1 u2)
  from tie_leaves_choice_undefined [OF df0 i0 tie] df0 tie show ?thesis
    by (intro exI [of _ df0]) simp
qed


lemma generate_succeeds:
  assumes "fst (simulate lib st tasks N p seed) = Inr df0"
    and "\<And>i. i < N * length tasks \<Longrightarrow> U1 df0 ! i \<noteq> U2 df0 ! i"
  shows "\<exists>df. fst (generate lib st tasks N p seed) = Inr df"
proof (cases "astype_int (CHOICE df0)")
  case (Inl e)
  then have "None \<in> set (CHOICE df0)"
    by (simp add: astype_int_Inl)
  then obtain i where i: "i < length (CHOICE df0)" and nan: "CHOICE df0 ! i = None"
    by (metis in_set_conv_nth)
  note c0 = simulate_columns [OF assms(1)] and l0 = simulate_lengths [OF assms(1)]
  have "CHOICE df0 ! i = (if U2 df0 ! i > U1 df0 ! i then Some 2
      else if U1 df0 ! i > U2 df0 ! i then Some 1 else None)"
    unfolding c0(12) using i by (intro choice_column_nth) (simp_all add: l0)
  with nan have "U1 df0 ! i = U2 df0 ! i"
    by (simp split: if_splits)
  with assms(2) [of i] i show ?thesis
    by (simp add: l0)
next
  case (Inr ch)
  with assms(1) show ?thesis
    by (simp add: generate_via_simulate)
qed

lemma simulate_succeeds:
  assumes "tasks \<noteq> []" "0 \<le> seed" "seed < 2 ^ 32"
  shows "\<exists>df0. fst (simulate lib st tasks N p seed) = Inr df0"
  by (simp add: simulate_ok [OF assms] Let_def)

lemma tasks_A_no_tie:
  assumes "j < 5"
  shows "(case tasks_A ! j of (a, b, c, d) \<Rightarrow>
      asc1 params_A + beta_tc params_A * real_of_int a + beta_tt params_A * real_of_int b \<noteq>
      asc2 params_A + beta_tc params_A * real_of_int c + beta_tt params_A * real_of_int d)"
proof -
  from assms have "j = 0 \<or> j = 1 \<or> j = 2 \<or> j = 3 \<or> j = 4"
    by arith
  then show ?thesis
    by (auto simp: tasks_A_def params_A_def)
qed

lemma scenarioA_silent_succeeds: "\<exists>df. fst (scenarioA silent_lib st) = Inr df"
proof -
  have t: "tasks_A \<noteq> []" and l: "length tasks_A = 5"
    by (simp_all add: tasks_A_def)
  obtain df0 where sim: "fst (simulate silent_lib st tasks_A 200 params_A 42) = Inr df0"
    using simulate_succeeds [OF t, of 42 silent_lib st 200 params_A] by auto
  note c0 = simulate_columns [OF sim] and l0 = simulate_lengths [OF sim]
  have "U1 df0 ! i \<noteq> U2 df0 ! i" if i: "i < 200 * length tasks_A" for i
  proof -
    have r: "respondent_major tasks_A 200 ! i =
        (1 + int (i div length tasks_A), tasks_A ! (i mod length tasks_A))"
      using i by (rule respondent_major_nth)
    have j: "i mod length tasks_A < 5"
      by (simp add: l)
    obtain a b c d where tj: "tasks_A ! (i mod length tasks_A) = (a, b, c, d)"
      by (cases "tasks_A ! (i mod length tasks_A)") auto
    have u1: "U1 df0 ! i = V1 df0 ! i" and u2: "U2 df0 ! i = V2 df0 ! i"
      using i by (simp_all add: c0(10,11) l0 c0(8,9) silent_lib_def)
    have v1: "V1 df0 ! i =
        asc1 params_A + beta_tc params_A * real_of_int a + beta_tt params_A * real_of_int b"
      and v2: "V2 df0 ! i =
        asc2 params_A + beta_tc params_A * real_of_int c + beta_tt params_A * real_of_int d"
      using i by (simp_all add: c0(6,7) length_respondent_major r tj)
    show ?thesis
      using tasks_A_no_tie [OF j] unfolding u1 u2 v1 v2 tj by simp
  qed
  then show ?thesis
    unfolding scenarioA_def using sim by (intro generate_succeeds)
qed

subsection \<open>Scenario A\<close>

text \<open>
  Claim C2. On the notebook's own inputs (the five tasks of cell 4, 200 respondents, the
  parameters of cell 6, seed 42) the generator's output has 1000 observations, and its
  first row is respondent 1 with task \<open>(4, 35, 8, 25)\<close> and the deterministic utilities
  \<open>V1 = -5.1\<close> and \<open>V2 = -4.7\<close>.
\<close>

theorem scenarioA_observations:
  assumes "fst (scenarioA lib st) = Inr df"
  shows "length (select_columns df) = 1000
       \<and> (RESP df ! 0, TC1 df ! 0, TT1 df ! 0, TC2 df ! 0, TT2 df ! 0) = (1, 4, 35, 8, 25)
       \<and> V1 df ! 0 = - 51 / 10
       \<and> V2 df ! 0 = - 47 / 10"
proof -
  from assms obtain df0 where sim: "fst (simulate lib st tasks_A 200 params_A 42) = Inr df0"
    and cols: "RESP df = RESP df0" "TC1 df = TC1 df0" "TT1 df = TT1 df0"
      "TC2 df = TC2 df0" "TT2 df = TT2 df0" "V1 df = V1 df0" "V2 df = V2 df0"
    and ch: "CHOICE df0 = map Some (CHOICE df)"
    unfolding scenarioA_def by (rule generate_Inr_D)
  note c0 = simulate_columns [OF sim] and l0 = simulate_lengths [OF sim]
  have l: "length tasks_A = 5"
    by (simp add: tasks_A_def)
  have "length (CHOICE df) = length (CHOICE df0)"
    using ch by simp
  then have len: "length (select_columns df) = 1000"
    by (simp add: select_columns_def cols l0 l)
  have "respondent_major tasks_A 200 ! 0 = (1 + int (0 div length tasks_A), tasks_A ! (0 mod length tasks_A))"
    by (rule respondent_major_nth) (simp add: l)
  then have r0: "respondent_major tasks_A 200 ! 0 = (1, 4, 35, 8, 25)"
    by (simp add: tasks_A_def)
  have pos: "0 < length (respondent_major tasks_A 200)"
    by (simp add: length_respondent_major l)
  have first: "(RESP df ! 0, TC1 df ! 0, TT1 df ! 0, TC2 df ! 0, TT2 df ! 0) = (1, 4, 35, 8, 25)"
    unfolding cols c0(1-5) using pos by (simp add: r0)
  have v1: "V1 df ! 0 = - 51 / 10"
    unfolding cols c0(6) using pos by (simp add: r0 params_A_def)
  have v2: "V2 df ! 0 = - 47 / 10"
    unfolding cols c0(7) using pos by (simp add: r0 params_A_def)
  show ?thesis
    using len first v1 v2 by blast
qed

theorem scenarioA_observations_witness:
  "\<exists>df. fst (scenarioA silent_lib fresh_state) = Inr df
     \<and> length (select_columns df) = 1000
     \<and> (RESP df ! 0, TC1 df ! 0, TT1 df ! 0, TC2 df ! 0, TT2 df ! 0) = (1, 4, 35, 8, 25)
     \<and> V1 df ! 0 = - 51 / 10
     \<and> V2 df ! 0 = - 47 / 10"
proof -
  obtain df where df: "fst (scenarioA silent_lib fresh_state) = Inr df"
    using scenarioA_silent_succeeds by blast
  from scenarioA_observations [OF df] df show ?thesis
    by (intro exI [of _ df]) simp
qed

section \<open>Properties of the written file\<close>

lemma digit_char_props:
  assumes "d < 10"
  shows "is_digit (digit_char d)" and "digit_val (digit_char d) = d"
    and "digit_char d \<noteq> CHR '',''" and "digit_char d \<noteq> newline" and "digit_char d \<noteq> CHR ''-''"
proof -
  have c: "(of_char (digit_char d) :: nat) = 48 + d"
    using assms by (simp add: digit_char_def)
  show "is_digit (digit_char d)"
    using assms by (simp add: is_digit_def c)
  show "digit_val (digit_char d) = d"
    by (simp add: digit_val_def c)
  have "(of_char (digit_char d) :: nat) \<noteq> of_char CHR '',''"
    unfolding c by simp
  then show "digit_char d \<noteq> CHR '',''" by auto
  have "(of_char (digit_char d) :: nat) \<noteq> of_char newline"
    unfolding c by (simp add: newline_def)
  then show "digit_char d \<noteq> newline" by auto
  have "(of_char (digit_char d) :: nat) \<noteq> of_char CHR ''-''"
    unfolding c by simp
  then show "digit_char d \<noteq> CHR ''-''" by auto
qed

lemma digits_nonempty: "digits n \<noteq> []"
  by (induction n rule: digits.induct) (subst digits.simps, simp)

lemma digits_chars: "c \<in> set (digits n) \<Longrightarrow> \<exists>d < 10. c = digit_char d"
proof (induction n rule: digits.induct)
  case (1 n)
  show ?case
  proof (cases "n < 10")
    case True
    with "1.prems" show ?thesis by (subst (asm) digits.simps) auto
  next
    case False
    with "1.prems" have "c \<in> set (digits (n div 10)) \<or> c = digit_char (n mod 10)"
      by (subst (asm) digits.simps) auto
    then show ?thesis
    proof
      assume "c \<in> set (digits (n div 10))"
      with False "1.IH" show ?thesis by simp
    next
      assume "c = digit_char (n mod 10)"
      moreover have "n mod 10 < 10" by simp
      ultimately show ?thesis by blast
    qed
  qed
qed

lemma digits_all_digit: "list_all is_digit (digits n)"
  using digits_chars [of _ n] digit_char_props(1) by (auto simp: list_all_iff)

lemma digits_value: "foldl (\<lambda>acc ch. 10 * acc + digit_val ch) 0 (digits n) = n"
proof (induction n rule: digits.induct)
  case (1 n)
  show ?case
  proof (cases "n < 10")
    case True
    then show ?thesis by (subst digits.simps) (simp add: digit_char_props(2))
  next
    case False
    have "n mod 10 < 10" by simp
    then have "digit_val (digit_char (n mod 10)) = n mod 10"
      by (rule digit_char_props(2))
    with False "1.IH" show ?thesis by (subst digits.simps) simp
  qed
qed

lemma nat_of_str_digits: "nat_of_str (digits n) = Some n"
  by (simp add: nat_of_str_def digits_nonempty digits_all_digit digits_value)

lemma digits_no_special:
  "CHR '','' \<notin> set (digits n)" "newline \<notin> set (digits n)" "CHR ''-'' \<notin> set (digits n)"
proof -
  show "CHR '','' \<notin> set (digits n)"
  proof
    assume "CHR '','' \<in> set (digits n)"
    then obtain d where "d < 10" "CHR '','' = digit_char d"
      using digits_chars by blast
    then show False using digit_char_props(3) [of d] by simp
  qed
  show "newline \<notin> set (digits n)"
  proof
    assume "newline \<in> set (digits n)"
    then obtain d where "d < 10" "newline = digit_char d"
      using digits_chars by blast
    then show False using digit_char_props(4) [of d] by simp
  qed
  show "CHR ''-'' \<notin> set (digits n)"
  proof
    assume "CHR ''-'' \<in> set (digits n)"
    then obtain d where "d < 10" "CHR ''-'' = digit_char d"
      using digits_chars by blast
    then show False using digit_char_props(5) [of d] by simp
  qed
qed

lemma int_of_str_str_int: "int_of_str (str_int i) = Some i"
proof (cases "i < 0")
  case True
  then show ?thesis
    by (simp add: int_of_str_def str_int_def nat_of_str_digits)
next
  case False
  obtain ch ds where d: "digits (nat i) = ch # ds"
    using digits_nonempty [of "nat i"] by (cases "digits (nat i)") auto
  have "ch \<noteq> CHR ''-''"
    using digits_no_special(3) [of "nat i"] d by auto
  moreover have "nat_of_str (ch # ds) = Some (nat i)"
    using nat_of_str_digits [of "nat i"] d by simp
  ultimately show ?thesis
    using False by (simp add: int_of_str_def str_int_def d)
qed

lemma str_int_no_special: "CHR '','' \<notin> set (str_int i)" "newline \<notin> set (str_int i)"
  using digits_no_special(1,2) by (auto simp: str_int_def newline_def)

lemma split_on_absent: "c \<notin> set f \<Longrightarrow> split_on c f = [f]"
  by (induction f) auto

lemma split_on_append: "c \<notin> set f \<Longrightarrow> split_on c (f @ c # rest) = f # split_on c rest"
  by (induction f) auto

lemma split_row:
  assumes "\<And>x. x \<in> set [a, b, c, d, e, f] \<Longrightarrow> CHR '','' \<notin> set x"
  shows "split_on CHR '','' (join '','' [a, b, c, d, e, f]) = [a, b, c, d, e, f]"
  using assms by (simp add: split_on_append split_on_absent)


lemma split_lines:
  assumes "\<And>l. l \<in> set ls \<Longrightarrow> newline \<notin> set l"
  shows "split_on newline (concat (map (\<lambda>l. l @ [newline]) ls)) = ls @ [[]]"
  using assms by (induction ls) (simp_all add: split_on_append)

lemma those_map_Some:
  assumes "\<And>x. f (g x) = Some x"
  shows "those (map f (map g xs)) = Some xs"
  by (induction xs) (simp_all add: assms)

lemma to_csv_lines:
  "to_csv rows = concat (map (\<lambda>l. l @ [newline]) (join '','' columns # map (\<lambda>row. join '','' (row_cells row)) rows))"
proof -
  have "concat (map (\<lambda>row. csv_line (row_cells row)) rows) =
      concat (map (\<lambda>l. l @ [newline]) (map (\<lambda>row. join '','' (row_cells row)) rows))"
    by (induction rows) (simp_all add: csv_line_def)
  then show ?thesis
    by (simp add: to_csv_def csv_line_def)
qed

lemma row_line_no_newline: "newline \<notin> set (join '','' (row_cells row))"
proof -
  obtain r a b c d ch where row: "row = (r, a, b, c, d, ch)"
    by (cases row) auto
  have "newline \<noteq> CHR '',''"
    by (simp add: newline_def)
  then show ?thesis
    by (simp add: row row_cells_def str_int_no_special(2))
qed

lemma parse_row_line: "parse_row (join '','' (row_cells row)) = Some row"
proof -
  obtain r a b c d ch where row: "row = (r, a, b, c, d, ch)"
    by (cases row) auto
  have "split_on CHR '','' (join '','' [str_int r, str_int a, str_int b, str_int c, str_int d, str_int ch]) =
      [str_int r, str_int a, str_int b, str_int c, str_int d, str_int ch]"
    by (rule split_row) (auto simp: str_int_no_special(1))
  then show ?thesis
    by (simp add: parse_row_def row row_cells_def int_of_str_str_int)
qed

lemma header_line: "split_on CHR '','' (join '','' columns) = columns"
  and header_no_newline: "newline \<notin> set (join '','' columns)"
  by (simp_all add: columns_def newline_def)

text \<open>
  Claim C7. Writing an observation sequence in the tabular format (header row
  \<open>RESP,TC1,TT1,TC2,TT2,CHOICE\<close>, comma-separated, one line per observation) and reading
  the text back gives the same sequence: same columns, same row order, same values. This
  holds for every sequence of integer rows, hence for \<open>select_columns df\<close> of every
  dataframe the generator returns.
\<close>

theorem csv_round_trip: "read_csv (to_csv rows) = Some rows"
proof -
  let ?lines = "map (\<lambda>row. join '','' (row_cells row)) rows"
  have "split_on newline (to_csv rows) = (join '','' columns # ?lines) @ [[]]"
    unfolding to_csv_lines
    by (rule split_lines) (auto simp: header_no_newline row_line_no_newline)
  then have "rev (split_on newline (to_csv rows)) = [] # rev (join '','' columns # ?lines)"
    by simp
  moreover have "those (map parse_row ?lines) = Some rows"
    by (rule those_map_Some) (rule parse_row_line)
  ultimately show ?thesis
    unfolding read_csv_def by (simp add: header_line)
qed

section \<open>Properties of the estimator\<close>

text \<open>
  Claim C6. With the dictionaries of \<open>estimate_mnl\<close>, \<open>V = {1: V1, 2: V2}\<close> and
  \<open>av = {1: 1, 2: 1}\<close>, the logit probability of alternative 1 is
  \<open>exp V1 / (exp V1 + exp V2)\<close>, that of alternative 2 is \<open>exp V2 / (exp V1 + exp V2)\<close>,
  and the two sum to 1, for all real utilities \<open>V1\<close> and \<open>V2\<close>.
\<close>

theorem logit_probabilities_sum_to_one:
  "logit [(1, v1), (2, v2)] [(1, 1), (2, 1)] 1 = Some (exp v1 / (exp v1 + exp v2))
   \<and> logit [(1, v1), (2, v2)] [(1, 1), (2, 1)] 2 = Some (exp v2 / (exp v1 + exp v2))
   \<and> exp v1 / (exp v1 + exp v2) + exp v2 / (exp v1 + exp v2) = 1"
proof -
  have pos: "exp v1 + exp v2 \<noteq> 0"
    using exp_gt_zero [of v1] exp_gt_zero [of v2] by linarith
  have "exp v1 / (exp v1 + exp v2) + exp v2 / (exp v1 + exp v2) = 1"
    using pos by (simp add: add_divide_distrib [symmetric])
  then show ?thesis
    by (simp add: logit_def available_def)
qed

lemma logit_shift:
  "logit [(1, k + v1), (2, k + v2)] [(1, 1), (2, 1)] c = logit [(1, v1), (2, v2)] [(1, 1), (2, 1)] c"
proof -
  have "exp k * a / (exp k * exp v1 + exp k * exp v2) = a / (exp v1 + exp v2)" for a
    unfolding distrib_left [symmetric] by simp
  then show ?thesis
    by (simp add: logit_def available_def exp_add)
qed

lemma eval_prob_cases:
  "eval \<beta> row (estimate_mnl_prob V1e V2e c) =
     (case eval \<beta> row V1e of
        None \<Rightarrow> None
      | Some v1 \<Rightarrow>
          (case eval \<beta> row V2e of
             None \<Rightarrow> None
           | Some v2 \<Rightarrow>
               (case eval \<beta> row c of
                  None \<Rightarrow> None
                | Some x \<Rightarrow>
                    if x = real_of_int \<lfloor>x\<rfloor>
                    then logit [(1, v1), (2, v2)] [(1, 1), (2, 1)] \<lfloor>x\<rfloor> else None)))"
  by (simp add: estimate_mnl_prob_def split: option.splits)

lemma eval_utility:
  "eval \<beta> row (Plus (Plus (Beta n v lb ub status) (Times B_TT (Variable tt))) (Times B_TC (Variable tc))) =
     (case row tt of
        None \<Rightarrow> None
      | Some t \<Rightarrow>
          (case row tc of
             None \<Rightarrow> None
           | Some c \<Rightarrow>
               Some ((if status = 0 then \<beta> n else v) + \<beta> ''B_TT'' * t + \<beta> ''B_TC'' * c)))"
  by (simp add: B_TT_def B_TC_def split: option.splits)

lemma free_betas_estimate_mnl_LL:
  "free_betas (estimate_mnl_LL V1e V2e c) = free_betas V1e @ free_betas V2e @ free_betas c"
  and fixed_betas_estimate_mnl_LL:
  "fixed_betas (estimate_mnl_LL V1e V2e c) = fixed_betas V1e @ fixed_betas V2e @ fixed_betas c"
  by (simp_all add: estimate_mnl_LL_def estimate_mnl_prob_def)

text \<open>
  Claim C10. In the model with ASC the formula \<open>estimate_mnl\<close> hands to biogeme has exactly
  three free parameters, \<open>B_TT\<close>, \<open>B_TC\<close> and \<open>ASC2\<close>, and one fixed parameter, \<open>ASC1\<close>,
  fixed at 0: \<open>ASC1\<close> evaluates to 0 and the log-likelihood does not depend on any value
  proposed for it. The normalisation is what identifies the constants: were \<open>ASC1\<close> free,
  adding the same \<open>k\<close> to \<open>ASC1\<close> and \<open>ASC2\<close> would leave every choice probability unchanged.
\<close>

theorem ASC1_is_fixed_at_zero:
  "set (free_betas (estimate_mnl_LL V1_asc V2_asc var_CHOICE)) = {''B_TT'', ''B_TC'', ''ASC2''}
   \<and> length (remdups (free_betas (estimate_mnl_LL V1_asc V2_asc var_CHOICE))) = 3
   \<and> fixed_betas (estimate_mnl_LL V1_asc V2_asc var_CHOICE) = [(''ASC1'', 0)]
   \<and> eval \<beta> row ASC1 = Some 0
   \<and> eval (\<beta>(''ASC1'' := x)) row (estimate_mnl_LL V1_asc V2_asc var_CHOICE) =
       eval \<beta> row (estimate_mnl_LL V1_asc V2_asc var_CHOICE)
   \<and> eval (\<beta>(''ASC1'' := \<beta> ''ASC1'' + k, ''ASC2'' := \<beta> ''ASC2'' + k)) row
         (estimate_mnl_prob V1_asc_free V2_asc var_CHOICE) =
       eval \<beta> row (estimate_mnl_prob V1_asc_free V2_asc var_CHOICE)"
proof -
  have free: "free_betas (estimate_mnl_LL V1_asc V2_asc var_CHOICE) =
      [''B_TT'', ''B_TC'', ''ASC2'', ''B_TT'', ''B_TC'']"
    by (simp add: free_betas_estimate_mnl_LL V1_asc_def V2_asc_def var_CHOICE_def ASC1_def ASC2_def
        B_TT_def B_TC_def var_TT1_def var_TC1_def var_TT2_def var_TC2_def)
  have fixed: "fixed_betas (estimate_mnl_LL V1_asc V2_asc var_CHOICE) = [(''ASC1'', 0)]"
    by (simp add: fixed_betas_estimate_mnl_LL V1_asc_def V2_asc_def var_CHOICE_def ASC1_def ASC2_def
        B_TT_def B_TC_def var_TT1_def var_TC1_def var_TT2_def var_TC2_def)
  have asc1: "eval \<beta> row ASC1 = Some 0"
    by (simp add: ASC1_def)
  have v1: "eval (\<beta>(''ASC1'' := x)) row V1_asc = eval \<beta> row V1_asc"
    unfolding V1_asc_def ASC1_def var_TT1_def var_TC1_def eval_utility
    by (simp split: option.splits)
  have v2: "eval (\<beta>(''ASC1'' := x)) row V2_asc = eval \<beta> row V2_asc"
    unfolding V2_asc_def ASC2_def var_TT2_def var_TC2_def eval_utility
    by (simp split: option.splits)
  have c: "eval b row var_CHOICE = row ''CHOICE''" for b
    by (simp add: var_CHOICE_def)
  have norm: "eval (\<beta>(''ASC1'' := x)) row (estimate_mnl_LL V1_asc V2_asc var_CHOICE) =
      eval \<beta> row (estimate_mnl_LL V1_asc V2_asc var_CHOICE)"
    unfolding estimate_mnl_LL_def eval.simps eval_prob_cases v1 v2 c by simp
  let ?b = "\<beta>(''ASC1'' := \<beta> ''ASC1'' + k, ''ASC2'' := \<beta> ''ASC2'' + k)"
  have s1: "eval ?b row V1_asc_free = map_option ((+) k) (eval \<beta> row V1_asc_free)"
    unfolding V1_asc_free_def ASC1_free_def var_TT1_def var_TC1_def eval_utility
    by (simp split: option.splits)
  have s2: "eval ?b row V2_asc = map_option ((+) k) (eval \<beta> row V2_asc)"
    unfolding V2_asc_def ASC2_def var_TT2_def var_TC2_def eval_utility
    by (simp split: option.splits)
  have ident: "eval ?b row (estimate_mnl_prob V1_asc_free V2_asc var_CHOICE) =
      eval \<beta> row (estimate_mnl_prob V1_asc_free V2_asc var_CHOICE)"
    unfolding eval_prob_cases s1 s2 c
    by (simp add: logit_shift split: option.splits)
  have names: "set (free_betas (estimate_mnl_LL V1_asc V2_asc var_CHOICE)) =
      {''B_TT'', ''B_TC'', ''ASC2''}"
    unfolding free by auto
  have count: "length (remdups (free_betas (estimate_mnl_LL V1_asc V2_asc var_CHOICE))) = 3"
    unfolding free by simp
  show ?thesis
    using names count fixed asc1 norm ident by blast
qed

text \<open>
  The model without ASC (cell 23) is the model with ASC restricted to \<open>ASC2 = 0\<close>: on every
  row and for all parameter values the two log-likelihood formulas agree there. Its maximal
  log-likelihood can therefore not exceed that of the model with ASC; by how much it falls
  short depends on the data and on biogeme's optimiser.
\<close>

lemma eval_utility_noasc:
  "eval \<beta> row (Plus (Times B_TT (Variable tt)) (Times B_TC (Variable tc))) =
     (case row tt of
        None \<Rightarrow> None
      | Some t \<Rightarrow>
          (case row tc of
             None \<Rightarrow> None
           | Some c \<Rightarrow> Some (\<beta> ''B_TT'' * t + \<beta> ''B_TC'' * c)))"
  by (simp add: B_TT_def B_TC_def split: option.splits)

lemma noasc_is_restriction:
  "eval \<beta> row (estimate_mnl_LL V1_noasc V2_noasc var_CHOICE) =
     eval (\<beta>(''ASC2'' := 0)) row (estimate_mnl_LL V1_asc V2_asc var_CHOICE)"
proof -
  have v1: "eval (\<beta>(''ASC2'' := 0)) row V1_asc = eval \<beta> row V1_noasc"
    unfolding V1_asc_def V1_noasc_def ASC1_def var_TT1_def var_TC1_def eval_utility
      eval_utility_noasc
    by (simp split: option.splits)
  have v2: "eval (\<beta>(''ASC2'' := 0)) row V2_asc = eval \<beta> row V2_noasc"
    unfolding V2_asc_def V2_noasc_def ASC2_def var_TT2_def var_TC2_def eval_utility
      eval_utility_noasc
    by (simp split: option.splits)
  have c: "eval b row var_CHOICE = row ''CHOICE''" for b
    by (simp add: var_CHOICE_def)
  show ?thesis
    unfolding estimate_mnl_LL_def eval.simps eval_prob_cases v1 v2 c by simp
qed

end
